theory Spec2Isabelle
  imports Main "HOL-Library.Sublist" "HOL-Library.Char_ord" "HOL-Library.List_Lexorder"
begin

section \<open>Values read from the YAML files\<close>

text \<open>
  The exporter \<^verbatim>\<open>scripts/export_games_to_csv.py\<close> works on what \<^verbatim>\<open>yaml.safe_load\<close>
  returns. A game entry is a dictionary from field names to values; a value is a scalar,
  a sequence of scalars, or a mapping from names to scalars (the shape of the \<^verbatim>\<open>video\<close>
  field). Scalars are \<^verbatim>\<open>None\<close>, booleans, integers and strings; floats and timestamps
  are left out, and so is nesting deeper than one level.

  Strings are \<open>char list\<close>s and compared as Python compares \<^verbatim>\<open>str\<close>: character by
  character, a proper prefix being smaller.
\<close>

datatype scalar = SNone | SBool bool | SInt int | SStr string

datatype yvalue = Scalar scalar | Seq "scalar list" | Mapping "(string \<times> scalar) list"

type_synonym game = "(string \<times> yvalue) list"

type_synonym row = "(string \<times> yvalue) list"

datatype error = TypeError | KeyError | ValueError

subsection \<open>Python built-ins used by the script\<close>

text \<open>
  \<^verbatim>\<open>str(n)\<close> for an integer: decimal digits, with a minus sign below zero. This is the
  string form of an integer that has one: CPython raises \<^verbatim>\<open>ValueError\<close> instead for an
  integer of more than \<^verbatim>\<open>sys.int_max_str_digits\<close> digits (see \<open>str_defined\<close> below),
  and the functions here are about integers within that limit.
\<close>

definition digit_char :: "nat \<Rightarrow> char" where
  "digit_char d = char_of (48 + d)"

fun str_nat :: "nat \<Rightarrow> string" where
  "str_nat n = (if n < 10 then [digit_char n] else str_nat (n div 10) @ [digit_char (n mod 10)])"

declare str_nat.simps [simp del]

definition str_int :: "int \<Rightarrow> string" where
  "str_int i = (if i < 0 then CHR ''-'' # str_nat (nat (- i)) else str_nat (nat i))"

fun py_str :: "scalar \<Rightarrow> string" where
  "py_str SNone = ''None''"
| "py_str (SBool b) = (if b then ''True'' else ''False'')"
| "py_str (SInt i) = str_int i"
| "py_str (SStr s) = s"

text \<open>Truth value of an object, as \<^verbatim>\<open>if not x\<close> tests it.\<close>

fun truthy_scalar :: "scalar \<Rightarrow> bool" where
  "truthy_scalar SNone = False"
| "truthy_scalar (SBool b) = b"
| "truthy_scalar (SInt i) = (i \<noteq> 0)"
| "truthy_scalar (SStr s) = (s \<noteq> [])"

fun truthy :: "yvalue \<Rightarrow> bool" where
  "truthy (Scalar c) = truthy_scalar c"
| "truthy (Seq xs) = (xs \<noteq> [])"
| "truthy (Mapping m) = (m \<noteq> [])"

text \<open>
  Iteration (\<^verbatim>\<open>for item in items\<close>): a list gives its elements, a string its characters
  (each a one-character string), a dictionary its keys; any other object raises
  \<^verbatim>\<open>TypeError\<close>.
\<close>

fun py_iter :: "yvalue \<Rightarrow> error + scalar list" where
  "py_iter (Seq xs) = Inr xs"
| "py_iter (Mapping m) = Inr (map (\<lambda>kv. SStr (fst kv)) m)"
| "py_iter (Scalar (SStr s)) = Inr (map (\<lambda>c. SStr [c]) s)"
| "py_iter (Scalar c) = Inl TypeError"

text \<open>\<^verbatim>\<open>sep.join(strings)\<close>.\<close>

fun py_join :: "string \<Rightarrow> string list \<Rightarrow> string" where
  "py_join sep [] = []"
| "py_join sep [x] = x"
| "py_join sep (x # y # ys) = x @ sep @ py_join sep (y # ys)"

text \<open>\<^verbatim>\<open>sub in s\<close> for two strings: \<open>sub\<close> occurs in \<open>s\<close> as a contiguous piece.\<close>

fun py_contains :: "string \<Rightarrow> string \<Rightarrow> bool" where
  "py_contains sub [] = (sub = [])"
| "py_contains sub (c # cs) = (prefix sub (c # cs) \<or> py_contains sub cs)"

text \<open>
  \<^verbatim>\<open>s.split(sep)\<close>: the pieces between the occurrences of \<open>sep\<close>, found from left to
  right without overlap. Python raises \<^verbatim>\<open>ValueError\<close> for an empty separator.
\<close>

function py_split :: "string \<Rightarrow> string \<Rightarrow> error + string list" where
  "py_split sep s =
     (if sep = [] then Inl ValueError
      else if s = [] then Inr [[]]
      else if prefix sep s then
        (case py_split sep (drop (length sep) s) of
           Inl e \<Rightarrow> Inl e
         | Inr ps \<Rightarrow> Inr ([] # ps))
      else
        (case py_split sep (tl s) of
           Inl e \<Rightarrow> Inl e
         | Inr [] \<Rightarrow> Inr [[hd s]]
         | Inr (p # ps) \<Rightarrow> Inr ((hd s # p) # ps)))"
  by pat_completeness auto
termination
  by (relation "measure (\<lambda>(sep, s). length s)") auto

declare py_split.simps [simp del]

text \<open>
  \<^verbatim>\<open>key in obj\<close> with a string key: key membership for a dictionary, element membership
  for a list, substring test for a string, \<^verbatim>\<open>TypeError\<close> otherwise.
\<close>

fun py_in :: "string \<Rightarrow> yvalue \<Rightarrow> error + bool" where
  "py_in k (Mapping m) = Inr (k \<in> set (map fst m))"
| "py_in k (Seq xs) = Inr (SStr k \<in> set xs)"
| "py_in k (Scalar (SStr s)) = Inr (py_contains k s)"
| "py_in k (Scalar c) = Inl TypeError"

text \<open>
  \<^verbatim>\<open>obj[key]\<close> with a string key: lookup in a dictionary (\<^verbatim>\<open>KeyError\<close> when missing);
  lists, strings and the other scalars raise \<^verbatim>\<open>TypeError\<close>.
\<close>

fun py_getitem :: "yvalue \<Rightarrow> string \<Rightarrow> error + scalar" where
  "py_getitem (Mapping m) k = (case map_of m k of None \<Rightarrow> Inl KeyError | Some v \<Rightarrow> Inr v)"
| "py_getitem v k = Inl TypeError"

subsection \<open>Dictionaries\<close>

text \<open>
  A dictionary is an association list in insertion order. \<^verbatim>\<open>d[k] = v\<close> overwrites the
  value of an existing key in place and appends a new key at the end.
\<close>

fun dict_set :: "(string \<times> 'v) list \<Rightarrow> string \<Rightarrow> 'v \<Rightarrow> (string \<times> 'v) list" where
  "dict_set [] k v = [(k, v)]"
| "dict_set ((k', v') # d) k v = (if k' = k then (k, v) # d else (k', v') # dict_set d k v)"

definition dict_get :: "(string \<times> 'v) list \<Rightarrow> string \<Rightarrow> 'v option" where
  "dict_get d k = map_of d k"

definition get_default :: "(string \<times> 'v) list \<Rightarrow> string \<Rightarrow> 'v \<Rightarrow> 'v" where
  "get_default d k dflt = (case map_of d k of None \<Rightarrow> dflt | Some v \<Rightarrow> v)"

definition dict_keys :: "(string \<times> 'v) list \<Rightarrow> string list" where
  "dict_keys d = map fst d"

fun dict_update :: "(string \<times> 'v) list \<Rightarrow> (string \<times> 'v) list \<Rightarrow> (string \<times> 'v) list" where
  "dict_update d [] = d"
| "dict_update d ((k, v) # e) = dict_update (dict_set d k v) e"

section \<open>Value Flattener\<close>

text \<open>
  \<^verbatim>\<open>
  def flatten_list(items):
      if not items:
          return ""
      return "; ".join(str(item) for item in items)
  \<close>
\<close>

definition flatten_list :: "yvalue \<Rightarrow> error + string" where
  "flatten_list items =
     (if \<not> truthy items then Inr ''''
      else (case py_iter items of
              Inl e \<Rightarrow> Inl e
            | Inr xs \<Rightarrow> Inr (py_join ''; '' (map py_str xs))))"

section \<open>Record Projector\<close>

text \<open>
  \<^verbatim>\<open>
  def extract_video_info(video_data):
      result = {}
      if not video_data:
          return result
      for platform in ['youtube', 'vimeo', 'moddb', 'indiedb']:
          if platform in video_data:
              result[f'video_{platform}'] = str(video_data[platform])
          else:
              result[f'video_{platform}'] = ""
      return result
  \<close>
\<close>

definition platforms :: "string list" where
  "platforms = [''youtube'', ''vimeo'', ''moddb'', ''indiedb'']"

fun video_loop :: "yvalue \<Rightarrow> string list \<Rightarrow> (string \<times> string) list \<Rightarrow> error + (string \<times> string) list" where
  "video_loop video_data [] result = Inr result"
| "video_loop video_data (platform # rest) result =
     (case py_in platform video_data of
        Inl e \<Rightarrow> Inl e
      | Inr present \<Rightarrow>
          if present then
            (case py_getitem video_data platform of
               Inl e \<Rightarrow> Inl e
             | Inr v \<Rightarrow> video_loop video_data rest (dict_set result (''video_'' @ platform) (py_str v)))
          else video_loop video_data rest (dict_set result (''video_'' @ platform) []))"

definition extract_video_info :: "yvalue \<Rightarrow> error + (string \<times> string) list" where
  "extract_video_info video_data =
     (if \<not> truthy video_data then Inr [] else video_loop video_data platforms [])"

text \<open>
  \<^verbatim>\<open>process_game_data\<close> fills a fresh dictionary: eleven fields copied with
  \<^verbatim>\<open>game.get(field, '')\<close>, six fields through \<^verbatim>\<open>flatten_list(game.get(field, []))\<close>,
  then \<^verbatim>\<open>processed.update(extract_video_info(game.get('video', {})))\<close>. The two runs of
  assignments are written as loops over the field names, in the order of the source.
\<close>

definition basic_fields :: "string list" where
  "basic_fields = [''name'', ''type'', ''status'', ''development'', ''content'', ''repo'',
     ''url'', ''feed'', ''info'', ''added'', ''updated'']"

definition list_fields :: "string list" where
  "list_fields = [''originals'', ''langs'', ''frameworks'', ''licenses'', ''images'',
     ''multiplayer'']"

definition video_fields :: "string list" where
  "video_fields = [''video_youtube'', ''video_vimeo'', ''video_moddb'', ''video_indiedb'']"

definition empty_str :: yvalue where
  "empty_str = Scalar (SStr [])"

fun copy_fields :: "game \<Rightarrow> string list \<Rightarrow> row \<Rightarrow> row" where
  "copy_fields game [] processed = processed"
| "copy_fields game (k # ks) processed =
     copy_fields game ks (dict_set processed k (get_default game k empty_str))"

fun flatten_fields :: "game \<Rightarrow> string list \<Rightarrow> row \<Rightarrow> error + row" where
  "flatten_fields game [] processed = Inr processed"
| "flatten_fields game (k # ks) processed =
     (case flatten_list (get_default game k (Seq [])) of
        Inl e \<Rightarrow> Inl e
      | Inr s \<Rightarrow> flatten_fields game ks (dict_set processed k (Scalar (SStr s))))"

definition process_game_data :: "game \<Rightarrow> error + row" where
  "process_game_data game =
     (case flatten_fields game list_fields (copy_fields game basic_fields []) of
        Inl e \<Rightarrow> Inl e
      | Inr processed \<Rightarrow>
          (case extract_video_info (get_default game ''video'' (Mapping [])) of
             Inl e \<Rightarrow> Inl e
           | Inr video_info \<Rightarrow>
               Inr (dict_update processed (map (\<lambda>kv. (fst kv, Scalar (SStr (snd kv)))) video_info))))"

section \<open>Field-Set Resolver\<close>

text \<open>
  \<^verbatim>\<open>
  def get_all_field_names(games_data):
      field_names = set()
      for game in games_data:
          processed = process_game_data(game)
          field_names.update(processed.keys())
      ordered_fields = [...]
      additional_fields = sorted(field_names - set(ordered_fields))
      return ordered_fields + additional_fields
  \<close>
\<close>

definition ordered_fields :: "string list" where
  "ordered_fields = [''name'', ''type'', ''status'', ''development'', ''content'',
     ''originals'', ''repo'', ''url'', ''feed'', ''info'',
     ''langs'', ''frameworks'', ''licenses'', ''multiplayer'',
     ''images'', ''video_youtube'', ''video_vimeo'', ''video_moddb'', ''video_indiedb'',
     ''added'', ''updated'']"

fun collect_fields :: "game list \<Rightarrow> string set \<Rightarrow> error + string set" where
  "collect_fields [] field_names = Inr field_names"
| "collect_fields (game # rest) field_names =
     (case process_game_data game of
        Inl e \<Rightarrow> Inl e
      | Inr processed \<Rightarrow> collect_fields rest (field_names \<union> set (dict_keys processed)))"

definition get_all_field_names :: "game list \<Rightarrow> error + string list" where
  "get_all_field_names games_data =
     (case collect_fields games_data {} of
        Inl e \<Rightarrow> Inl e
      | Inr field_names \<Rightarrow>
          Inr (ordered_fields @ sorted_list_of_set (field_names - set ordered_fields)))"

section \<open>Source Loader\<close>

text \<open>
  The directory is a list of entries in the order the file system lists them. What
  \<^verbatim>\<open>open\<close> followed by \<^verbatim>\<open>yaml.safe_load\<close> does on an entry is part of the entry: it
  raises an exception (\<open>Inl\<close> with its message) or returns the document, which is
  \<^verbatim>\<open>None\<close> for an empty file and otherwise the list of game entries.
  \<^verbatim>\<open>
  def load_games_from_yaml_files(games_dir):
      all_games = []
      yaml_files = sorted(games_dir.glob("*.yaml"))
      for yaml_file in yaml_files:
          print(f"Processing {yaml_file.name}...")
          try:
              with open(yaml_file, 'r', encoding='utf-8') as f:
                  games = yaml.safe_load(f)
                  if games:
                      all_games.extend(games)
          except Exception as e:
              print(f"Error processing {yaml_file.name}: {e}")
              continue
      return all_games
  \<close>
  The function returns the printed lines together with \<^verbatim>\<open>all_games\<close>.
\<close>

record yaml_file =
  file_name :: string
  file_load :: "string + game list option"

definition glob_yaml :: "yaml_file list \<Rightarrow> yaml_file list" where
  "glob_yaml entries = filter (\<lambda>f. suffix ''.yaml'' (file_name f)) entries"

fun load_loop :: "yaml_file list \<Rightarrow> string list \<Rightarrow> game list \<Rightarrow> string list \<times> game list" where
  "load_loop [] out all_games = (out, all_games)"
| "load_loop (f # fs) out all_games =
     (let out1 = out @ [''Processing '' @ file_name f @ ''...''] in
      case file_load f of
        Inl e \<Rightarrow> load_loop fs (out1 @ [''Error processing '' @ file_name f @ '': '' @ e]) all_games
      | Inr None \<Rightarrow> load_loop fs out1 all_games
      | Inr (Some games) \<Rightarrow>
          load_loop fs out1 (if games \<noteq> [] then all_games @ games else all_games))"

definition load_games_from_yaml_files :: "yaml_file list \<Rightarrow> string list \<times> game list" where
  "load_games_from_yaml_files games_dir =
     load_loop (sort_key file_name (glob_yaml games_dir)) [] []"

section \<open>Export Driver\<close>





fun map_games :: "game list \<Rightarrow> error + row list" where
  "map_games [] = Inr []"
| "map_games (game # rest) =
     (case process_game_data game of
        Inl e \<Rightarrow> Inl e
      | Inr processed \<Rightarrow>
          (case map_games rest of Inl e \<Rightarrow> Inl e | Inr ps \<Rightarrow> Inr (processed # ps)))"






section \<open>Notions used in the statements\<close>

text \<open>
  What one directory entry contributes to a load: its game entries (none when loading it
  raised or gave \<^verbatim>\<open>None\<close>) and the lines printed while it was processed.
\<close>

definition file_games :: "yaml_file \<Rightarrow> game list" where
  "file_games f = (case file_load f of Inl e \<Rightarrow> [] | Inr None \<Rightarrow> [] | Inr (Some games) \<Rightarrow> games)"

definition file_lines :: "yaml_file \<Rightarrow> string list" where
  "file_lines f =
     (''Processing '' @ file_name f @ ''...'') #
     (case file_load f of
        Inl e \<Rightarrow> [''Error processing '' @ file_name f @ '': '' @ e]
      | Inr d \<Rightarrow> [])"

text \<open>
  A game entry has the documented shape when each of its six list fields is absent or a
  sequence and its \<^verbatim>\<open>video\<close> field is absent or a mapping.
\<close>

definition is_seq :: "yvalue \<Rightarrow> bool" where
  "is_seq v = (case v of Seq xs \<Rightarrow> True | _ \<Rightarrow> False)"

definition is_mapping :: "yvalue \<Rightarrow> bool" where
  "is_mapping v = (case v of Mapping m \<Rightarrow> True | _ \<Rightarrow> False)"

definition documented_shape :: "game \<Rightarrow> bool" where
  "documented_shape game =
     ((\<forall>k \<in> set list_fields. is_seq (get_default game k (Seq []))) \<and>
      is_mapping (get_default game ''video'' (Mapping [])))"







section \<open>Auxiliary facts\<close>

lemma py_contains_iff: "py_contains sub s \<longleftrightarrow> (\<exists>ps ss. s = ps @ sub @ ss)"
proof (induction s)
  case Nil
  then show ?case by auto
next
  case (Cons c cs)
  show ?case
  proof
    assume "py_contains sub (c # cs)"
    then consider "prefix sub (c # cs)" | "py_contains sub cs" by auto
    then show "\<exists>ps ss. c # cs = ps @ sub @ ss"
    proof cases
      case 1
      then obtain ss where "c # cs = sub @ ss" by (auto simp: prefix_def)
      then have "c # cs = [] @ sub @ ss" by simp
      then show ?thesis by blast
    next
      case 2
      with Cons.IH obtain ps ss where "cs = ps @ sub @ ss" by blast
      then have "c # cs = (c # ps) @ sub @ ss" by simp
      then show ?thesis by blast
    qed
  next
    assume "\<exists>ps ss. c # cs = ps @ sub @ ss"
    then obtain ps ss where eq: "c # cs = ps @ sub @ ss" by blast
    show "py_contains sub (c # cs)"
    proof (cases ps)
      case Nil
      with eq have "prefix sub (c # cs)" by (simp add: prefix_def)
      then show ?thesis by simp
    next
      case (Cons p ps')
      with eq have "cs = ps' @ sub @ ss" by simp
      with Cons.IH have "py_contains sub cs" by blast
      then show ?thesis by simp
    qed
  qed
qed

lemma py_split_total: "sep \<noteq> [] \<Longrightarrow> \<exists>p ps. py_split sep s = Inr (p # ps)"
proof (induction sep s rule: py_split.induct)
  case (1 sep s)
  show ?case
  proof (cases "s = []")
    case True
    with "1.prems" show ?thesis by (simp add: py_split.simps)
  next
    case ne: False
    show ?thesis
    proof (cases "prefix sep s")
      case True
      with "1.IH"(1) "1.prems" ne obtain p ps where "py_split sep (drop (length sep) s) = Inr (p # ps)"
        by blast
      with True ne "1.prems" show ?thesis
        by (subst py_split.simps) simp
    next
      case False
      with "1.IH"(2) "1.prems" ne obtain p ps where "py_split sep (tl s) = Inr (p # ps)"
        by blast
      with False ne "1.prems" show ?thesis
        by (subst py_split.simps) simp
    qed
  qed
qed







lemma dict_keys_simps:
  "dict_keys [] = []" "dict_keys (kv # d) = fst kv # dict_keys d"
  by (simp_all add: dict_keys_def)

lemma dict_keys_dict_set:
  "dict_keys (dict_set d k v) = (if k \<in> set (dict_keys d) then dict_keys d else dict_keys d @ [k])"
  by (induction d) (auto simp: dict_keys_simps)

lemma map_of_dict_set: "map_of (dict_set d k v) = (map_of d)(k \<mapsto> v)"
  by (induction d) (auto simp: fun_eq_iff)

lemma copy_fields_keys:
  "distinct (dict_keys p @ ks) \<Longrightarrow> dict_keys (copy_fields game ks p) = dict_keys p @ ks"
  by (induction ks arbitrary: p) (auto simp: dict_keys_dict_set)

lemma copy_fields_map_of:
  "map_of (copy_fields game ks p) k =
     (if k \<in> set ks then Some (get_default game k empty_str) else map_of p k)"
  by (induction ks arbitrary: p) (auto simp: map_of_dict_set)

lemma flatten_fields_keys:
  "flatten_fields game ks p = Inr p' \<Longrightarrow> distinct (dict_keys p @ ks) \<Longrightarrow>
   dict_keys p' = dict_keys p @ ks"
proof (induction ks arbitrary: p)
  case Nil
  then show ?case by simp
next
  case (Cons k ks)
  from Cons.prems(1) obtain s where
    s: "flatten_list (get_default game k (Seq [])) = Inr s" and
    rest: "flatten_fields game ks (dict_set p k (Scalar (SStr s))) = Inr p'"
    by (auto split: sum.splits)
  from Cons.prems(2) have "distinct (dict_keys (dict_set p k (Scalar (SStr s))) @ ks)"
    by (auto simp: dict_keys_dict_set)
  from Cons.IH [OF rest this] Cons.prems(2) show ?case
    by (simp add: dict_keys_dict_set)
qed

lemma flatten_fields_map_of:
  "flatten_fields game ks p = Inr p' \<Longrightarrow>
   map_of p' k =
     (if k \<in> set ks then
        (case flatten_list (get_default game k (Seq [])) of
           Inl e \<Rightarrow> None | Inr s \<Rightarrow> Some (Scalar (SStr s)))
      else map_of p k)"
proof (induction ks arbitrary: p)
  case Nil
  then show ?case by simp
next
  case (Cons j ks)
  from Cons.prems obtain s where
    s: "flatten_list (get_default game j (Seq [])) = Inr s" and
    rest: "flatten_fields game ks (dict_set p j (Scalar (SStr s))) = Inr p'"
    by (auto split: sum.splits)
  from Cons.IH [OF rest] s show ?case
    by (auto simp: map_of_dict_set)
qed

lemma flatten_fields_ok:
  "flatten_fields game ks p = Inr p' \<Longrightarrow> k \<in> set ks \<Longrightarrow>
   \<exists>s. flatten_list (get_default game k (Seq [])) = Inr s"
  by (induction ks arbitrary: p) (auto split: sum.splits)

lemma flatten_fields_total:
  "\<forall>k \<in> set ks. \<not> isl (flatten_list (get_default game k (Seq []))) \<Longrightarrow>
   \<exists>p'. flatten_fields game ks p = Inr p'"
  by (induction ks arbitrary: p) (auto split: sum.splits)

lemma flatten_fields_fails:
  "k \<in> set ks \<Longrightarrow> isl (flatten_list (get_default game k (Seq []))) \<Longrightarrow>
   isl (flatten_fields game ks p)"
  by (induction ks arbitrary: p) (auto split: sum.splits)

lemma video_loop_keys:
  "video_loop vd ps r = Inr r' \<Longrightarrow> distinct (dict_keys r @ map (\<lambda>p. ''video_'' @ p) ps) \<Longrightarrow>
   dict_keys r' = dict_keys r @ map (\<lambda>p. ''video_'' @ p) ps"
proof (induction ps arbitrary: r)
  case Nil
  then show ?case by simp
next
  case (Cons p ps)
  from Cons.prems(1) obtain s where
    rest: "video_loop vd ps (dict_set r (''video_'' @ p) s) = Inr r'"
    by (auto split: sum.splits if_splits)
  from Cons.prems(2) have "distinct (dict_keys (dict_set r (''video_'' @ p) s) @ map (\<lambda>p. ''video_'' @ p) ps)"
    by (auto simp: dict_keys_dict_set)
  from Cons.IH [OF rest this] Cons.prems(2) show ?case
    by (simp add: dict_keys_dict_set)
qed

lemma extract_video_info_keys:
  "extract_video_info vd = Inr vi \<Longrightarrow>
   dict_keys vi = (if truthy vd then video_fields else [])"
proof (cases "truthy vd")
  case False
  assume "extract_video_info vd = Inr vi"
  with False show ?thesis by (simp add: extract_video_info_def dict_keys_def)
next
  case True
  assume "extract_video_info vd = Inr vi"
  with True have "video_loop vd platforms [] = Inr vi" by (simp add: extract_video_info_def)
  from video_loop_keys [OF this] True show ?thesis
    by (simp add: platforms_def video_fields_def dict_keys_def)
qed

lemma dict_update_keys:
  "distinct (dict_keys d @ dict_keys e) \<Longrightarrow> dict_keys (dict_update d e) = dict_keys d @ dict_keys e"
proof (induction e arbitrary: d)
  case Nil
  then show ?case by (simp add: dict_keys_simps)
next
  case (Cons kv e)
  obtain k v where kv: "kv = (k, v)" by (cases kv)
  from Cons.prems kv have "distinct (dict_keys (dict_set d k v) @ dict_keys e)"
    by (auto simp: dict_keys_dict_set dict_keys_simps)
  from Cons.IH [OF this] Cons.prems kv show ?case
    by (auto simp: dict_keys_dict_set dict_keys_simps)
qed

lemma dict_update_map_of:
  "distinct (dict_keys e) \<Longrightarrow>
   map_of (dict_update d e) k = (case map_of e k of None \<Rightarrow> map_of d k | Some v \<Rightarrow> Some v)"
proof (induction e arbitrary: d)
  case Nil
  then show ?case by simp
next
  case (Cons kv e)
  obtain j v where kv: "kv = (j, v)" by (cases kv)
  from Cons.prems kv have d: "distinct (dict_keys e)" and j: "j \<notin> set (dict_keys e)"
    by (auto simp: dict_keys_def)
  from j have "map_of e j = None" by (simp add: dict_keys_def map_of_eq_None_iff)
  with Cons.IH [OF d, of "dict_set d j v"] kv show ?case
    by (auto simp: map_of_dict_set split: option.splits)
qed

lemma process_game_data_keys_aux:
  assumes "process_game_data game = Inr processed"
  shows "dict_keys processed =
     basic_fields @ list_fields @
       (if truthy (get_default game ''video'' (Mapping [])) then video_fields else [])"
proof -
  from assms obtain p1 vi where
    p1: "flatten_fields game list_fields (copy_fields game basic_fields []) = Inr p1" and
    vi: "extract_video_info (get_default game ''video'' (Mapping [])) = Inr vi" and
    pr: "processed = dict_update p1 (map (\<lambda>kv. (fst kv, Scalar (SStr (snd kv)))) vi)"
    by (auto simp: process_game_data_def split: sum.splits)
  have k0: "dict_keys (copy_fields game basic_fields []) = basic_fields"
    using copy_fields_keys [of "[]" basic_fields game]
    by (simp add: dict_keys_def basic_fields_def)
  have k1: "dict_keys p1 = basic_fields @ list_fields"
    using flatten_fields_keys [OF p1] k0
    by (simp add: basic_fields_def list_fields_def)
  have kv: "dict_keys (map (\<lambda>kv. (fst kv, Scalar (SStr (snd kv)))) vi) = dict_keys vi"
    by (simp add: dict_keys_def comp_def)
  have k2: "dict_keys vi = (if truthy (get_default game ''video'' (Mapping [])) then video_fields else [])"
    by (rule extract_video_info_keys [OF vi])
  have "distinct (dict_keys p1 @ dict_keys (map (\<lambda>kv. (fst kv, Scalar (SStr (snd kv)))) vi))"
    unfolding k1 kv k2 by (simp add: basic_fields_def list_fields_def video_fields_def)
  from dict_update_keys [OF this] show ?thesis
    unfolding pr k1 kv k2 by simp
qed


lemma flatten_list_Seq: "flatten_list (Seq items) = Inr (py_join ''; '' (map py_str items))"
  by (cases items) (simp_all add: flatten_list_def)

lemma flatten_list_Mapping: "\<not> isl (flatten_list (Mapping m))"
  by (simp add: flatten_list_def)

lemma flatten_list_SStr:
  "flatten_list (Scalar (SStr s)) = Inr (py_join ''; '' (map (\<lambda>c. [c]) s))"
  by (cases s) (simp_all add: flatten_list_def comp_def)

lemma flatten_list_falsy: "\<not> truthy v \<Longrightarrow> flatten_list v = Inr []"
  by (simp add: flatten_list_def)

lemma flatten_list_number: "i \<noteq> 0 \<Longrightarrow> flatten_list (Scalar (SInt i)) = Inl TypeError"
  by (simp add: flatten_list_def)

lemma length_join_chars:
  "s \<noteq> [] \<Longrightarrow> length (py_join ''; '' (map (\<lambda>c. [c]) s)) = 3 * length s - 2"
proof (induction s)
  case Nil
  then show ?case by simp
next
  case (Cons c cs)
  show ?case
  proof (cases cs)
    case Nil
    then show ?thesis by simp
  next
    case (Cons d ds)
    with Cons.IH have "length (py_join ''; '' (map (\<lambda>c. [c]) cs)) = 3 * length cs - 2" by simp
    with Cons show ?thesis by simp
  qed
qed

lemma video_loop_Mapping:
  "video_loop (Mapping m) ps r =
     Inr (foldl (\<lambda>r p. dict_set r (''video_'' @ p)
                   (case map_of m p of None \<Rightarrow> [] | Some v \<Rightarrow> py_str v)) r ps)"
proof (induction ps arbitrary: r)
  case Nil
  then show ?case by simp
next
  case (Cons p ps)
  show ?case
  proof (cases "map_of m p")
    case None
    then have "p \<notin> set (map fst m)" by (simp add: map_of_eq_None_iff)
    with None Cons.IH show ?thesis by simp
  next
    case (Some v)
    then have "p \<in> set (map fst m)" by (metis map_of_eq_None_iff option.distinct(1) set_map)
    with Some Cons.IH show ?thesis by simp
  qed
qed

lemma extract_video_info_Mapping:
  "extract_video_info (Mapping m) =
     Inr (if m = [] then []
          else map (\<lambda>p. (''video_'' @ p, case map_of m p of None \<Rightarrow> [] | Some v \<Rightarrow> py_str v))
                 platforms)"
  unfolding extract_video_info_def video_loop_Mapping by (simp add: platforms_def)

lemma extract_video_info_distinct:
  "extract_video_info vd = Inr vi \<Longrightarrow> distinct (dict_keys vi)"
  by (drule extract_video_info_keys) (simp add: video_fields_def)

lemma map_of_lift_video:
  "map_of (map (\<lambda>kv. (fst kv, Scalar (SStr (snd kv)))) vi) k =
     map_option (\<lambda>s. Scalar (SStr s)) (map_of vi k)"
  by (induction vi) auto

lemma process_game_data_split:
  assumes "process_game_data game = Inr processed"
  obtains p1 vi where
    "flatten_fields game list_fields (copy_fields game basic_fields []) = Inr p1"
    "extract_video_info (get_default game ''video'' (Mapping [])) = Inr vi"
    "processed = dict_update p1 (map (\<lambda>kv. (fst kv, Scalar (SStr (snd kv)))) vi)"
  using assms by (auto simp: process_game_data_def split: sum.splits)

lemma process_game_data_map_of:
  assumes "process_game_data game = Inr processed"
  shows "map_of processed k =
     (if k \<in> set video_fields \<and> truthy (get_default game ''video'' (Mapping [])) then
        map_option (\<lambda>s. Scalar (SStr s))
          (map_of (projr (extract_video_info (get_default game ''video'' (Mapping [])))) k)
      else if k \<in> set list_fields then
        Some (Scalar (SStr (projr (flatten_list (get_default game k (Seq []))))))
      else if k \<in> set basic_fields then Some (get_default game k empty_str)
      else None)"
proof -
  from assms obtain p1 vi where
    p1: "flatten_fields game list_fields (copy_fields game basic_fields []) = Inr p1" and
    vi: "extract_video_info (get_default game ''video'' (Mapping [])) = Inr vi" and
    pr: "processed = dict_update p1 (map (\<lambda>kv. (fst kv, Scalar (SStr (snd kv)))) vi)"
    by (rule process_game_data_split)
  have dv: "distinct (dict_keys (map (\<lambda>kv. (fst kv, Scalar (SStr (snd kv)))) vi))"
    using extract_video_info_distinct [OF vi] by (simp add: dict_keys_def comp_def)
  have kvi: "dict_keys vi = (if truthy (get_default game ''video'' (Mapping [])) then video_fields else [])"
    by (rule extract_video_info_keys [OF vi])
  have ks: "fst ` set vi = set (dict_keys vi)" by (simp add: dict_keys_def)
  have vmap: "map_of vi k = None" if "\<not> (k \<in> set video_fields \<and> truthy (get_default game ''video'' (Mapping [])))"
    using that by (auto simp: map_of_eq_None_iff ks kvi)
  have vsome: "map_of vi k \<noteq> None" if "k \<in> set video_fields" "truthy (get_default game ''video'' (Mapping []))"
    using that by (simp add: map_of_eq_None_iff ks kvi)
  have m1: "map_of p1 k =
     (if k \<in> set list_fields then
        (case flatten_list (get_default game k (Seq [])) of
           Inl e \<Rightarrow> None | Inr s \<Rightarrow> Some (Scalar (SStr s)))
      else if k \<in> set basic_fields then Some (get_default game k empty_str) else None)"
    using flatten_fields_map_of [OF p1, of k] by (simp add: copy_fields_map_of)
  have ok: "\<exists>s. flatten_list (get_default game k (Seq [])) = Inr s" if "k \<in> set list_fields"
    using flatten_fields_ok [OF p1 that] .
  show ?thesis
  proof (cases "k \<in> set video_fields \<and> truthy (get_default game ''video'' (Mapping []))")
    case True
    with vsome obtain s where "map_of vi k = Some s" by auto
    with True vi show ?thesis
      unfolding pr by (simp add: dict_update_map_of [OF dv] map_of_lift_video)
  next
    case False
    from vmap [OF False] have "map_of processed k = map_of p1 k"
      unfolding pr by (simp add: dict_update_map_of [OF dv] map_of_lift_video)
    with False m1 ok show ?thesis by auto
  qed
qed

lemma process_game_data_isl:
  "isl (process_game_data game) \<longleftrightarrow>
     (\<exists>k \<in> set list_fields. isl (flatten_list (get_default game k (Seq [])))) \<or>
     isl (extract_video_info (get_default game ''video'' (Mapping [])))"
proof (cases "\<exists>k \<in> set list_fields. isl (flatten_list (get_default game k (Seq [])))")
  case True
  then obtain k where "k \<in> set list_fields" "isl (flatten_list (get_default game k (Seq [])))"
    by blast
  then have "isl (flatten_fields game list_fields (copy_fields game basic_fields []))"
    by (rule flatten_fields_fails)
  then have "isl (process_game_data game)"
    by (auto simp: process_game_data_def split: sum.splits)
  with True show ?thesis by simp
next
  case False
  then have "\<forall>k \<in> set list_fields. \<not> isl (flatten_list (get_default game k (Seq [])))" by simp
  from flatten_fields_total [OF this] obtain p1 where
    "flatten_fields game list_fields (copy_fields game basic_fields []) = Inr p1" by blast
  with False show ?thesis
    by (auto simp: process_game_data_def split: sum.splits)
qed

lemma fields_subset: "set (basic_fields @ list_fields @ video_fields) \<subseteq> set ordered_fields"
  by (simp add: basic_fields_def list_fields_def video_fields_def ordered_fields_def)

lemma fields_supset: "set ordered_fields \<subseteq> set (basic_fields @ list_fields @ video_fields)"
  by (simp add: basic_fields_def list_fields_def video_fields_def ordered_fields_def)

lemma fields_set_eq: "set (basic_fields @ list_fields @ video_fields) = set ordered_fields"
  using fields_subset fields_supset by (rule equalityI)

lemma video_not_plain: "k \<in> set video_fields \<Longrightarrow> k \<notin> set (basic_fields @ list_fields)"
  by (auto simp: basic_fields_def list_fields_def video_fields_def)

lemma video_in_ordered: "k \<in> set video_fields \<Longrightarrow> k \<in> set ordered_fields"
  using fields_subset by auto

lemma plain_subset: "set (basic_fields @ list_fields) \<subseteq> set ordered_fields"
  using fields_subset by auto

lemma plain_game_projects:
  "\<not> isl (process_game_data [(''name'', Scalar (SStr ''Foo''))])"
  by (simp add: process_game_data_isl get_default_def flatten_list_Seq extract_video_info_Mapping
      list_fields_def)

lemma basic_not_list: "k \<in> set basic_fields \<Longrightarrow> k \<notin> set list_fields"
  by (auto simp: basic_fields_def list_fields_def)

lemma basic_not_video: "k \<in> set basic_fields \<Longrightarrow> k \<notin> set video_fields"
  by (auto simp: basic_fields_def video_fields_def)

lemma list_not_video: "k \<in> set list_fields \<Longrightarrow> k \<notin> set video_fields"
  by (auto simp: list_fields_def video_fields_def)

lemma process_game_data_basic:
  assumes "process_game_data game = Inr processed" "k \<in> set basic_fields"
  shows "map_of processed k = Some (get_default game k empty_str)"
  using process_game_data_map_of [OF assms(1), of k] assms(2)
    basic_not_list [OF assms(2)] basic_not_video [OF assms(2)]
  by simp

lemma process_game_data_list:
  assumes "process_game_data game = Inr processed" "k \<in> set list_fields"
  shows "\<exists>s. flatten_list (get_default game k (Seq [])) = Inr s \<and>
             map_of processed k = Some (Scalar (SStr s))"
proof -
  from assms(1) obtain p1 where
    "flatten_fields game list_fields (copy_fields game basic_fields []) = Inr p1"
    by (rule process_game_data_split)
  from flatten_fields_ok [OF this assms(2)] obtain s where
    s: "flatten_list (get_default game k (Seq [])) = Inr s" by blast
  with process_game_data_map_of [OF assms(1), of k] assms(2) list_not_video [OF assms(2)]
  show ?thesis by simp
qed

lemma process_game_data_video:
  assumes "process_game_data game = Inr processed" "k \<in> set (dict_keys processed)"
    "k \<in> set video_fields"
  shows "\<exists>s. map_of processed k = Some (Scalar (SStr s))"
proof -
  from assms(2) have "map_of processed k \<noteq> None"
    by (simp add: dict_keys_def map_of_eq_None_iff)
  moreover from assms(2,3) process_game_data_keys_aux [OF assms(1)] video_not_plain [OF assms(3)]
  have "truthy (get_default game ''video'' (Mapping []))"
    by (auto split: if_splits)
  ultimately show ?thesis
    using process_game_data_map_of [OF assms(1), of k] assms(3) by auto
qed

lemma number_game_projects:
  "\<not> isl (process_game_data [(''name'', Scalar (SInt 2048)), (''feed'', Scalar SNone)])"
  by (simp add: process_game_data_isl get_default_def flatten_list_Seq extract_video_info_Mapping
      list_fields_def)

lemma documented_shape_projects: "documented_shape game \<Longrightarrow> \<not> isl (process_game_data game)"
proof -
  assume d: "documented_shape game"
  have "\<not> isl (flatten_list v)" if "is_seq v" for v
    using that by (cases v) (simp_all add: is_seq_def flatten_list_Seq)
  moreover have "\<not> isl (extract_video_info v)" if "is_mapping v" for v
    using that by (cases v) (simp_all add: is_mapping_def extract_video_info_Mapping)
  ultimately show ?thesis
    using d by (simp add: process_game_data_isl documented_shape_def)
qed

lemma collect_fields_Inr:
  "collect_fields games F = Inr F' \<Longrightarrow>
   (\<forall>g \<in> set games. \<not> isl (process_game_data g)) \<and>
   F' = F \<union> (\<Union>g \<in> set games. set (dict_keys (projr (process_game_data g))))"
proof (induction games arbitrary: F)
  case Nil
  then show ?case by simp
next
  case (Cons g gs)
  from Cons.prems obtain processed where
    p: "process_game_data g = Inr processed" and
    r: "collect_fields gs (F \<union> set (dict_keys processed)) = Inr F'"
    by (auto split: sum.splits)
  from Cons.IH [OF r] p show ?case by auto
qed

lemma collect_fields_total:
  "\<forall>g \<in> set games. \<not> isl (process_game_data g) \<Longrightarrow> \<exists>F'. collect_fields games F = Inr F'"
  by (induction games arbitrary: F) (auto split: sum.splits)

lemma collect_fields_fails:
  "\<exists>g \<in> set games. isl (process_game_data g) \<Longrightarrow> isl (collect_fields games F)"
  by (induction games arbitrary: F) (auto split: sum.splits)

lemma get_all_field_names_isl:
  "isl (get_all_field_names games) \<longleftrightarrow> (\<exists>g \<in> set games. isl (process_game_data g))"
proof (cases "\<exists>g \<in> set games. isl (process_game_data g)")
  case True
  from collect_fields_fails [OF this, of "{}"] True show ?thesis
    by (auto simp: get_all_field_names_def split: sum.splits)
next
  case False
  then have "\<forall>g \<in> set games. \<not> isl (process_game_data g)" by simp
  from collect_fields_total [OF this, of "{}"] False show ?thesis
    by (auto simp: get_all_field_names_def)
qed

lemma get_all_field_names_Inr:
  assumes "get_all_field_names games = Inr cols"
  shows "cols = ordered_fields @
     sorted_list_of_set
       ((\<Union>g \<in> set games. set (dict_keys (projr (process_game_data g)))) - set ordered_fields)"
proof -
  from assms obtain F where F: "collect_fields games {} = Inr F"
    and c: "cols = ordered_fields @ sorted_list_of_set (F - set ordered_fields)"
    by (auto simp: get_all_field_names_def split: sum.splits)
  from collect_fields_Inr [OF F] c show ?thesis by simp
qed

lemma length_ordered_fields: "length ordered_fields = 21"
  by (simp add: ordered_fields_def)


lemma sample_game_shape:
  "documented_shape [(''name'', Scalar (SStr ''Foo'')), (''langs'', Seq [SStr ''en'', SStr ''fr''])]"
  by (simp add: documented_shape_def list_fields_def get_default_def is_seq_def is_mapping_def)

lemma load_loop_eq:
  "load_loop fs out all_games =
     (out @ concat (map file_lines fs), all_games @ concat (map file_games fs))"
proof (induction fs arbitrary: out all_games)
  case Nil
  then show ?case by simp
next
  case (Cons f fs)
  show ?case
  proof (cases "file_load f")
    case (Inl e)
    with Cons.IH show ?thesis by (simp add: file_lines_def file_games_def)
  next
    case (Inr d)
    with Cons.IH show ?thesis
      by (cases d) (simp_all add: file_lines_def file_games_def)
  qed
qed

lemma load_games_eq:
  "load_games_from_yaml_files dir =
     (concat (map file_lines (sort_key file_name (glob_yaml dir))),
      concat (map file_games (sort_key file_name (glob_yaml dir))))"
  by (simp add: load_games_from_yaml_files_def load_loop_eq)

lemma sample_dir_sorted:
  "sort_key file_name (glob_yaml
     [\<lparr>file_name = ''b.yaml'', file_load = Inl ''bad indentation''\<rparr>,
      \<lparr>file_name = ''notes.txt'', file_load = Inr None\<rparr>,
      \<lparr>file_name = ''a.yaml'', file_load = Inr (Some [[(''name'', Scalar (SStr ''Foo''))]])\<rparr>]) =
     [\<lparr>file_name = ''a.yaml'', file_load = Inr (Some [[(''name'', Scalar (SStr ''Foo''))]])\<rparr>,
      \<lparr>file_name = ''b.yaml'', file_load = Inl ''bad indentation''\<rparr>]"
  by (simp add: glob_yaml_def suffix_def)

lemma map_games_isl: "isl (map_games games) \<longleftrightarrow> (\<exists>g \<in> set games. isl (process_game_data g))"
  by (induction games) (auto split: sum.splits)























lemma join_chars_same_iff:
  "s \<noteq> [] \<Longrightarrow> py_join ''; '' (map (\<lambda>c. [c]) s) = s \<longleftrightarrow> length s = 1"
proof
  assume ne: "s \<noteq> []" and eq: "py_join ''; '' (map (\<lambda>c. [c]) s) = s"
  from length_join_chars [OF ne] eq have "3 * length s - 2 = length s" by simp
  with ne show "length s = 1" by (cases s) auto
next
  assume "length s = 1"
  then obtain c where "s = [c]" by (cases s) auto
  then show "py_join ''; '' (map (\<lambda>c. [c]) s) = s" by simp
qed

lemma one_char_list_field:
  "\<not> isl (process_game_data [(''langs'', Scalar (SStr ''C''))]) \<and>
   dict_get (projr (process_game_data [(''langs'', Scalar (SStr ''C''))])) ''langs'' =
     Some (Scalar (SStr ''C''))"
proof -
  let ?g = "[(''langs'', Scalar (SStr ''C''))]"
  have ok: "\<not> isl (process_game_data ?g)"
    by (simp add: process_game_data_isl get_default_def flatten_list_Seq flatten_list_SStr
        extract_video_info_Mapping list_fields_def)
  then have eq: "process_game_data ?g = Inr (projr (process_game_data ?g))" by simp
  have k: "''langs'' \<in> set list_fields" by (simp add: list_fields_def)
  from process_game_data_list [OF eq k]
  have "map_of (projr (process_game_data ?g)) ''langs'' = Some (Scalar (SStr ''C''))"
    by (simp add: get_default_def flatten_list_SStr)
  with ok show ?thesis by (simp add: dict_get_def)
qed




section \<open>Value Flattener: joining and splitting\<close>



text \<open>
  Claim C10, as the code has it. A list field that holds a single non-empty string \<open>s\<close>
  does not make the projection fail: \<^verbatim>\<open>flatten_list\<close> iterates over the characters of
  \<open>s\<close> and returns them joined by \<^verbatim>\<open>"; "\<close>, and the projected row holds that joined
  string in the field's column. The joined string is \<open>s\<close> itself exactly when \<open>s\<close> has a
  single character; from two characters on it differs from \<open>s\<close>.
\<close>

theorem flatten_list_of_string:
  "s \<noteq> [] \<Longrightarrow>
   flatten_list (Scalar (SStr s)) = Inr (py_join ''; '' (map (\<lambda>c. [c]) s)) \<and>
   (py_join ''; '' (map (\<lambda>c. [c]) s) = s \<longleftrightarrow> length s = 1) \<and>
   (k \<in> set list_fields \<longrightarrow>
      \<not> isl (process_game_data [(k, Scalar (SStr s))]) \<and>
      (\<forall>game processed.
         map_of game k = Some (Scalar (SStr s)) \<and> process_game_data game = Inr processed \<longrightarrow>
         dict_get processed k = Some (Scalar (SStr (py_join ''; '' (map (\<lambda>c. [c]) s))))))"
proof (intro conjI impI allI)
  show "flatten_list (Scalar (SStr s)) = Inr (py_join ''; '' (map (\<lambda>c. [c]) s))"
    by (rule flatten_list_SStr)
next
  assume "s \<noteq> []"
  then show "py_join ''; '' (map (\<lambda>c. [c]) s) = s \<longleftrightarrow> length s = 1"
    by (rule join_chars_same_iff)
next
  assume k: "k \<in> set list_fields"
  have "\<not> isl (flatten_list (get_default [(k, Scalar (SStr s))] j (Seq [])))" for j
    by (simp add: get_default_def flatten_list_SStr flatten_list_Seq)
  moreover have "\<not> isl (extract_video_info (get_default [(k, Scalar (SStr s))] ''video'' (Mapping [])))"
    using k by (auto simp: get_default_def extract_video_info_Mapping list_fields_def)
  ultimately show "\<not> isl (process_game_data [(k, Scalar (SStr s))])"
    by (simp add: process_game_data_isl)
next
  fix game processed
  assume k: "k \<in> set list_fields"
    and h: "map_of game k = Some (Scalar (SStr s)) \<and> process_game_data game = Inr processed"
  from k have nv: "k \<notin> set video_fields" by (auto simp: list_fields_def video_fields_def)
  from h have "get_default game k (Seq []) = Scalar (SStr s)" by (simp add: get_default_def)
  with process_game_data_map_of [of game processed k] h k nv
  show "dict_get processed k = Some (Scalar (SStr (py_join ''; '' (map (\<lambda>c. [c]) s))))"
    by (simp add: dict_get_def flatten_list_SStr)
qed

theorem flatten_list_of_string_witness:
  "flatten_list (Scalar (SStr ''en'')) = Inr ''e; n'' \<and> ''e; n'' \<noteq> ''en'' \<and>
   \<not> isl (process_game_data [(''langs'', Scalar (SStr ''en''))]) \<and>
   dict_get (projr (process_game_data [(''langs'', Scalar (SStr ''en''))])) ''langs'' =
     Some (Scalar (SStr ''e; n''))"
proof -
  let ?g = "[(''langs'', Scalar (SStr ''en''))]"
  have k: "''langs'' \<in> set list_fields" by (simp add: list_fields_def)
  note t = flatten_list_of_string [of "''en''" "''langs''"]
  from t k have ok: "\<not> isl (process_game_data ?g)" by simp
  then have eq: "process_game_data ?g = Inr (projr (process_game_data ?g))" by simp
  have m: "map_of ?g ''langs'' = Some (Scalar (SStr ''en''))" by simp
  from t k have
    "\<forall>game processed.
       map_of game ''langs'' = Some (Scalar (SStr ''en'')) \<and> process_game_data game = Inr processed \<longrightarrow>
       dict_get processed ''langs'' = Some (Scalar (SStr ''e; n''))"
    by simp
  with m eq have "dict_get (projr (process_game_data ?g)) ''langs'' = Some (Scalar (SStr ''e; n''))"
    by blast
  with t ok show ?thesis by simp
qed

text \<open>
  Claim C10 as stated fails for a one-character string: \<^verbatim>\<open>langs: C\<close> is projected
  without failure, and the row holds \<^verbatim>\<open>C\<close>, the string unchanged.
\<close>

theorem flatten_list_of_string_counterexample:
  "flatten_list (Scalar (SStr ''C'')) = Inr ''C'' \<and>
   \<not> isl (process_game_data [(''langs'', Scalar (SStr ''C''))]) \<and>
   dict_get (projr (process_game_data [(''langs'', Scalar (SStr ''C''))])) ''langs'' =
     Some (Scalar (SStr ''C''))"
  using one_char_list_field by (simp add: flatten_list_SStr)

section \<open>Record Projector: the video columns and the key set of a row\<close>




text \<open>
  Claim C1, as the code has it. When \<^verbatim>\<open>process_game_data\<close> returns, the keys of the row
  are the eleven copied fields, then the six list fields, then the four video columns
  exactly when the \<^verbatim>\<open>video\<close> field is present and truthy. So the key set is always
  contained in the 21 canonical column names and equals them exactly when the entry has a
  truthy \<^verbatim>\<open>video\<close> field; an entry without a \<^verbatim>\<open>video\<close> field gets a row without
  any of the four \<^verbatim>\<open>video_*\<close> keys.
\<close>

theorem process_game_data_keys:
  "process_game_data game = Inr processed \<Longrightarrow>
   dict_keys processed =
     basic_fields @ list_fields @
       (if truthy (get_default game ''video'' (Mapping [])) then video_fields else []) \<and>
   set (dict_keys processed) \<subseteq> set ordered_fields \<and>
   (set (dict_keys processed) = set ordered_fields \<longleftrightarrow>
      truthy (get_default game ''video'' (Mapping []))) \<and>
   (map_of game ''video'' = None \<longrightarrow> (\<forall>k \<in> set video_fields. dict_get processed k = None))"
proof -
  assume a: "process_game_data game = Inr processed"
  note k = process_game_data_keys_aux [OF a]
  show ?thesis
  proof (cases "truthy (get_default game ''video'' (Mapping []))")
    case True
    with k have kp: "dict_keys processed = basic_fields @ list_fields @ video_fields" by simp
    then have se: "set (dict_keys processed) = set ordered_fields"
      by (simp only: fields_set_eq)
    from True have "map_of game ''video'' \<noteq> None"
      by (auto simp: get_default_def split: option.splits)
    then have nv: "map_of game ''video'' = None \<longrightarrow>
        (\<forall>k \<in> set video_fields. dict_get processed k = None)" by blast
    from k se nv True show ?thesis by blast
  next
    case False
    with k have kp: "dict_keys processed = basic_fields @ list_fields" by simp
    then have sub: "set (dict_keys processed) \<subseteq> set ordered_fields"
      using plain_subset by simp
    have y: "''video_youtube'' \<in> set video_fields" by (simp add: video_fields_def)
    from video_not_plain [OF y] video_in_ordered [OF y] kp
    have ne: "set (dict_keys processed) \<noteq> set ordered_fields" by auto
    have "dict_get processed j = None" if "j \<in> set video_fields" for j
    proof -
      from video_not_plain [OF that] kp have "j \<notin> set (dict_keys processed)" by simp
      then show ?thesis by (simp add: dict_get_def dict_keys_def map_of_eq_None_iff)
    qed
    with kp sub ne False show ?thesis by simp
  qed
qed

theorem process_game_data_keys_witness:
  "dict_keys (projr (process_game_data [(''name'', Scalar (SStr ''Foo''))])) =
     basic_fields @ list_fields \<and>
   dict_get (projr (process_game_data [(''name'', Scalar (SStr ''Foo''))])) ''video_vimeo'' = None"
proof -
  let ?g = "[(''name'', Scalar (SStr ''Foo''))]"
  from plain_game_projects
  have eq: "process_game_data ?g = Inr (projr (process_game_data ?g))" by simp
  from process_game_data_keys [OF eq] show ?thesis
    by (simp add: get_default_def video_fields_def)
qed

text \<open>
  Claim C1 as stated fails for an entry without a \<^verbatim>\<open>video\<close> field: the projection
  succeeds, its key set is not the 21 canonical names, and \<^verbatim>\<open>video_youtube\<close> is not
  mapped to the empty string (it is not a key of the row).
\<close>

theorem process_game_data_keys_counterexample:
  "\<not> isl (process_game_data [(''name'', Scalar (SStr ''Foo''))]) \<and>
   set (dict_keys (projr (process_game_data [(''name'', Scalar (SStr ''Foo''))]))) \<noteq> set ordered_fields \<and>
   dict_get (projr (process_game_data [(''name'', Scalar (SStr ''Foo''))])) ''video_youtube'' \<noteq>
     Some (Scalar (SStr []))"
proof -
  let ?g = "[(''name'', Scalar (SStr ''Foo''))]"
  note ok = plain_game_projects
  then have eq: "process_game_data ?g = Inr (projr (process_game_data ?g))" by simp
  have k: "dict_keys (projr (process_game_data ?g)) = basic_fields @ list_fields"
    using process_game_data_keys_aux [OF eq] by (simp add: get_default_def)
  have y: "''video_youtube'' \<in> set video_fields" by (simp add: video_fields_def)
  from video_not_plain [OF y] video_in_ordered [OF y] k
  have ne: "set (dict_keys (projr (process_game_data ?g))) \<noteq> set ordered_fields" by auto
  from video_not_plain [OF y] k
  have "''video_youtube'' \<notin> set (dict_keys (projr (process_game_data ?g)))" by simp
  then have "dict_get (projr (process_game_data ?g)) ''video_youtube'' = None"
    by (simp add: dict_get_def dict_keys_def map_of_eq_None_iff)
  with ok ne show ?thesis by simp
qed

text \<open>
  Claim C7, as the code has it. When \<^verbatim>\<open>process_game_data\<close> returns, each of the eleven
  copied columns holds the entry's own value for that field, unchanged and of whatever
  type it has (\<^verbatim>\<open>game.get(field, '')\<close> applies no \<^verbatim>\<open>str\<close>), and the empty string when
  the field is absent; each of the six list columns holds the string that
  \<^verbatim>\<open>flatten_list\<close> returned; and every value of the row outside the eleven copied columns
  (the list columns and, when present, the video columns) is a string.
\<close>

theorem process_game_data_values:
  "process_game_data game = Inr processed \<Longrightarrow>
   (\<forall>k \<in> set basic_fields.
      dict_get processed k =
        (case map_of game k of None \<Rightarrow> Some (Scalar (SStr [])) | Some v \<Rightarrow> Some v)) \<and>
   (\<forall>k \<in> set list_fields.
      \<exists>s. flatten_list (get_default game k (Seq [])) = Inr s \<and>
          dict_get processed k = Some (Scalar (SStr s))) \<and>
   (\<forall>k \<in> set (dict_keys processed).
      k \<notin> set basic_fields \<longrightarrow> (\<exists>s. dict_get processed k = Some (Scalar (SStr s))))"
proof (intro conjI ballI impI)
  fix k
  assume a: "process_game_data game = Inr processed" and k: "k \<in> set basic_fields"
  from process_game_data_basic [OF a k]
  show "dict_get processed k =
        (case map_of game k of None \<Rightarrow> Some (Scalar (SStr [])) | Some v \<Rightarrow> Some v)"
    by (simp add: dict_get_def get_default_def empty_str_def split: option.splits)
next
  fix k
  assume a: "process_game_data game = Inr processed" and k: "k \<in> set list_fields"
  from process_game_data_list [OF a k]
  show "\<exists>s. flatten_list (get_default game k (Seq [])) = Inr s \<and>
          dict_get processed k = Some (Scalar (SStr s))"
    by (simp add: dict_get_def)
next
  fix k
  assume a: "process_game_data game = Inr processed"
    and k: "k \<in> set (dict_keys processed)" and nb: "k \<notin> set basic_fields"
  from k nb process_game_data_keys_aux [OF a]
  consider "k \<in> set list_fields" | "k \<in> set video_fields"
    by (auto split: if_splits)
  then show "\<exists>s. dict_get processed k = Some (Scalar (SStr s))"
  proof cases
    case 1
    from process_game_data_list [OF a 1] show ?thesis by (auto simp: dict_get_def)
  next
    case 2
    from process_game_data_video [OF a k 2] show ?thesis by (simp add: dict_get_def)
  qed
qed

theorem process_game_data_values_witness:
  "dict_get (projr (process_game_data [(''name'', Scalar (SInt 2048)), (''feed'', Scalar SNone)]))
     ''name'' = Some (Scalar (SInt 2048)) \<and>
   dict_get (projr (process_game_data [(''name'', Scalar (SInt 2048)), (''feed'', Scalar SNone)]))
     ''url'' = Some (Scalar (SStr []))"
proof -
  let ?g = "[(''name'', Scalar (SInt 2048)), (''feed'', Scalar SNone)]"
  from number_game_projects
  have eq: "process_game_data ?g = Inr (projr (process_game_data ?g))" by simp
  from process_game_data_values [OF eq]
  have "\<forall>k \<in> set basic_fields.
      dict_get (projr (process_game_data ?g)) k =
        (case map_of ?g k of None \<Rightarrow> Some (Scalar (SStr [])) | Some v \<Rightarrow> Some v)"
    by blast
  moreover have "''name'' \<in> set basic_fields" "''url'' \<in> set basic_fields"
    by (simp_all add: basic_fields_def)
  ultimately show ?thesis by simp
qed

text \<open>
  Claim C7 as stated fails for an entry with a number in \<^verbatim>\<open>name\<close> and a null \<^verbatim>\<open>feed\<close>:
  the projection succeeds, and the row holds the integer and \<^verbatim>\<open>None\<close> themselves, not
  strings.
\<close>

theorem process_game_data_values_counterexample:
  "\<not> isl (process_game_data [(''name'', Scalar (SInt 2048)), (''feed'', Scalar SNone)]) \<and>
   dict_get (projr (process_game_data [(''name'', Scalar (SInt 2048)), (''feed'', Scalar SNone)]))
     ''name'' = Some (Scalar (SInt 2048)) \<and>
   dict_get (projr (process_game_data [(''name'', Scalar (SInt 2048)), (''feed'', Scalar SNone)]))
     ''feed'' = Some (Scalar SNone)"
proof -
  let ?g = "[(''name'', Scalar (SInt 2048)), (''feed'', Scalar SNone)]"
  note ok = number_game_projects
  then have eq: "process_game_data ?g = Inr (projr (process_game_data ?g))" by simp
  have "''name'' \<in> set basic_fields" "''feed'' \<in> set basic_fields"
    by (simp_all add: basic_fields_def)
  from this [THEN process_game_data_basic [OF eq]] ok show ?thesis
    by (simp add: dict_get_def get_default_def)
qed

section \<open>Field-Set Resolver\<close>

text \<open>
  Claim C3. Whenever \<^verbatim>\<open>get_all_field_names\<close> returns, and it does for every sequence of
  entries of the documented shape, the column list is the fixed 21-name prefix in its
  fixed order followed by exactly the keys that occur in some entry's projected row and
  not in the prefix, in strictly ascending order and disjoint from the prefix; the
  column list contains the keys of every projected row.
\<close>

theorem get_all_field_names_columns:
  "((\<forall>g \<in> set games. documented_shape g) \<longrightarrow> \<not> isl (get_all_field_names games)) \<and>
   (\<forall>cols. get_all_field_names games = Inr cols \<longrightarrow>
      length ordered_fields = 21 \<and>
      (\<exists>extra.
         cols = ordered_fields @ extra \<and>
         set extra =
           (\<Union>g \<in> set games. set (dict_keys (projr (process_game_data g)))) - set ordered_fields \<and>
         sorted_wrt (<) extra \<and>
         set extra \<inter> set ordered_fields = {}) \<and>
      (\<forall>g \<in> set games. \<forall>processed.
         process_game_data g = Inr processed \<longrightarrow> set (dict_keys processed) \<subseteq> set cols))"
proof (intro conjI allI impI ballI)
  assume "\<forall>g \<in> set games. documented_shape g"
  then show "\<not> isl (get_all_field_names games)"
    by (simp add: get_all_field_names_isl documented_shape_projects)
next
  fix cols
  assume "get_all_field_names games = Inr cols"
  show "length ordered_fields = 21" by (rule length_ordered_fields)
next
  fix cols
  assume a: "get_all_field_names games = Inr cols"
  let ?K = "\<Union>g \<in> set games. set (dict_keys (projr (process_game_data g)))"
  let ?extra = "sorted_list_of_set (?K - set ordered_fields)"
  have fin: "finite (?K - set ordered_fields)" by simp
  from get_all_field_names_Inr [OF a] have "cols = ordered_fields @ ?extra" .
  moreover from fin have "set ?extra = ?K - set ordered_fields" by simp
  moreover have "sorted_wrt (<) ?extra" by (rule strict_sorted_list_of_set)
  moreover from fin have "set ?extra \<inter> set ordered_fields = {}" by auto
  ultimately show "\<exists>extra.
         cols = ordered_fields @ extra \<and>
         set extra = ?K - set ordered_fields \<and>
         sorted_wrt (<) extra \<and>
         set extra \<inter> set ordered_fields = {}"
    by blast
next
  fix cols g processed
  assume a: "get_all_field_names games = Inr cols" and g: "g \<in> set games"
    and p: "process_game_data g = Inr processed"
  let ?K = "\<Union>g \<in> set games. set (dict_keys (projr (process_game_data g)))"
  have fin: "finite (?K - set ordered_fields)" by simp
  from get_all_field_names_Inr [OF a] fin
  have "set cols = set ordered_fields \<union> ?K" by auto
  moreover from g p have "set (dict_keys processed) \<subseteq> ?K" by force
  ultimately show "set (dict_keys processed) \<subseteq> set cols" by blast
qed

theorem get_all_field_names_columns_witness:
  "\<not> isl (get_all_field_names
        [[(''name'', Scalar (SStr ''Foo'')), (''langs'', Seq [SStr ''en'', SStr ''fr''])]]) \<and>
   take 21 (projr (get_all_field_names
        [[(''name'', Scalar (SStr ''Foo'')), (''langs'', Seq [SStr ''en'', SStr ''fr''])]])) =
     ordered_fields"
proof -
  let ?gs = "[[(''name'', Scalar (SStr ''Foo'')), (''langs'', Seq [SStr ''en'', SStr ''fr''])]]"
  note t = get_all_field_names_columns [of ?gs]
  from t sample_game_shape have ok: "\<not> isl (get_all_field_names ?gs)" by simp
  then have eq: "get_all_field_names ?gs = Inr (projr (get_all_field_names ?gs))" by simp
  with t obtain extra where "projr (get_all_field_names ?gs) = ordered_fields @ extra"
    by blast
  then have "take 21 (projr (get_all_field_names ?gs)) = ordered_fields"
    by (simp add: length_ordered_fields)
  with ok show ?thesis by simp
qed

section \<open>Source Loader\<close>

text \<open>
  Claim C4. The loader always returns. It goes through the \<^verbatim>\<open>*.yaml\<close> entries in
  ascending order of their names; every such entry is announced
  (\<^verbatim>\<open>Processing <name>...\<close>); an entry whose loading raises is reported with its name
  and the cause (\<^verbatim>\<open>Error processing <name>: <cause>\<close>) and contributes no game; the
  games of every entry that loaded are all in the result, which is the concatenation of
  the entries' games in that order.
\<close>

theorem load_games_skips_failed_files:
  "load_games_from_yaml_files dir =
     (concat (map file_lines (sort_key file_name (glob_yaml dir))),
      concat (map file_games (sort_key file_name (glob_yaml dir)))) \<and>
   (\<forall>f \<in> set (glob_yaml dir).
      (''Processing '' @ file_name f @ ''...'') \<in> set (fst (load_games_from_yaml_files dir)) \<and>
      (\<forall>e. file_load f = Inl e \<longrightarrow>
         (''Error processing '' @ file_name f @ '': '' @ e)
           \<in> set (fst (load_games_from_yaml_files dir)) \<and>
         file_games f = []) \<and>
      (\<forall>games. file_load f = Inr (Some games) \<longrightarrow>
         file_games f = games \<and> set games \<subseteq> set (snd (load_games_from_yaml_files dir))))"
proof (intro conjI ballI allI impI)
  show "load_games_from_yaml_files dir =
     (concat (map file_lines (sort_key file_name (glob_yaml dir))),
      concat (map file_games (sort_key file_name (glob_yaml dir))))"
    by (rule load_games_eq)
next
  fix f assume "f \<in> set (glob_yaml dir)"
  then show "(''Processing '' @ file_name f @ ''...'') \<in> set (fst (load_games_from_yaml_files dir))"
    by (auto simp: load_games_eq file_lines_def intro!: bexI [of _ f])
next
  fix f e assume "f \<in> set (glob_yaml dir)" "file_load f = Inl e"
  then show "(''Error processing '' @ file_name f @ '': '' @ e)
           \<in> set (fst (load_games_from_yaml_files dir))"
    by (auto simp: load_games_eq file_lines_def intro!: bexI [of _ f])
next
  fix f :: yaml_file and e assume "file_load f = Inl e"
  then show "file_games f = []" by (simp add: file_games_def)
next
  fix f :: yaml_file and games assume "file_load f = Inr (Some games)"
  then show "file_games f = games" by (simp add: file_games_def)
next
  fix f games assume "f \<in> set (glob_yaml dir)" "file_load f = Inr (Some games)"
  then show "set games \<subseteq> set (snd (load_games_from_yaml_files dir))"
    by (auto simp: load_games_eq file_games_def intro!: bexI [of _ f])
qed

theorem load_games_skips_failed_files_witness:
  "load_games_from_yaml_files
     [\<lparr>file_name = ''b.yaml'', file_load = Inl ''bad indentation''\<rparr>,
      \<lparr>file_name = ''notes.txt'', file_load = Inr None\<rparr>,
      \<lparr>file_name = ''a.yaml'', file_load = Inr (Some [[(''name'', Scalar (SStr ''Foo''))]])\<rparr>] =
     ([''Processing a.yaml...'', ''Processing b.yaml...'',
       ''Error processing b.yaml: bad indentation''],
      [[(''name'', Scalar (SStr ''Foo''))]])"
  using load_games_skips_failed_files [of
     "[\<lparr>file_name = ''b.yaml'', file_load = Inl ''bad indentation''\<rparr>,
      \<lparr>file_name = ''notes.txt'', file_load = Inr None\<rparr>,
      \<lparr>file_name = ''a.yaml'', file_load = Inr (Some [[(''name'', Scalar (SStr ''Foo''))]])\<rparr>]"]
  unfolding sample_dir_sorted
  by (simp add: file_lines_def file_games_def)

section \<open>Export Driver\<close>








end
